theory Spec2Isabelle
  imports Complex_Main "HOL-Library.Char_ord" "HOL-Library.List_Lexorder"
begin

section \<open>The arity-curry engine (\<open>L.curry\<close>, \<open>L.ncurry\<close>)\<close>

text \<open>
  A target callable is its declared parameter count (\<open>fn.length\<close>) and its body, a
  function of the argument list it is applied to. Every invocation of a target is
  recorded in a call log (the list of argument lists it was invoked with, oldest
  first), so that the number of invocations can be read off.
\<close>

record ('a, 'r) target =
  flength :: nat
  body :: "'a list \<Rightarrow> 'r"

type_synonym 'a log = "'a list list"

text \<open>
  What \<open>L.ncurry\<close> and the closure it returns hand back: the result of the target, or
  a new closure, which captures \<open>n\<close>, \<open>fn\<close> and \<open>largs\<close>.
\<close>

datatype ('a, 'r) curried =
  Result 'r
| FrontEnd nat "('a, 'r) target" "'a list"

text \<open>\<open>fn.apply(this, args)\<close>: one invocation of the target.\<close>

definition invoke :: "('a, 'r) target \<Rightarrow> 'a list \<Rightarrow> 'a log \<Rightarrow> 'r \<times> 'a log" where
  "invoke fn args lg = (body fn args, lg @ [args])"

text \<open>
  \<open>L.apply\<close> is \<open>L.curry(function (f, args) { return f.apply(this, args); })\<close>;
  \<open>L.ncurry\<close> calls it with both arguments at once, so it invokes \<open>f.apply\<close> directly.
\<close>

definition L_apply :: "('a, 'r) target \<Rightarrow> 'a list \<Rightarrow> 'a log \<Rightarrow> 'r \<times> 'a log" where
  "L_apply f args lg = invoke f args lg"

text \<open>
  \<open>L.ncurry(n, fn, args...)\<close>; \<open>largs\<close> are the pre-applied arguments
  (\<open>slice.call(arguments, 2)\<close>) and \<open>largs.slice(0, n)\<close> is \<open>take n largs\<close>.
\<close>

definition L_ncurry ::
  "nat \<Rightarrow> ('a, 'r) target \<Rightarrow> 'a list \<Rightarrow> 'a log \<Rightarrow> ('a, 'r) curried \<times> 'a log" where
  "L_ncurry n fn largs lg =
     (if length largs \<ge> n
      then (case L_apply fn (take n largs) lg of (r, lg') \<Rightarrow> (Result r, lg'))
      else (FrontEnd n fn largs, lg))"

text \<open>
  The closure returned by \<open>L.ncurry\<close>, called with the arguments \<open>supplied\<close>:
  \<open>args = largs.concat(slice.call(arguments))\<close>.
\<close>

definition call_front ::
  "nat \<Rightarrow> ('a, 'r) target \<Rightarrow> 'a list \<Rightarrow> 'a list \<Rightarrow> 'a log \<Rightarrow> ('a, 'r) curried \<times> 'a log" where
  "call_front n fn largs supplied lg =
     (let args = largs @ supplied in
      if length args < n then L_ncurry n fn args lg
      else (case invoke fn (take n args) lg of (r, lg') \<Rightarrow> (Result r, lg')))"

text \<open>\<open>L.curry(fn, args...)\<close> is \<open>L.ncurry\<close> at \<open>fn.length\<close>.\<close>

definition L_curry :: "('a, 'r) target \<Rightarrow> 'a list \<Rightarrow> 'a log \<Rightarrow> ('a, 'r) curried \<times> 'a log" where
  "L_curry fn args lg = L_ncurry (flength fn) fn args lg"

text \<open>
  A chain of successive calls \<open>c(g1)(g2)...(gk)\<close>. Calling what the engine returned
  as the target's result is outside the engine: \<open>None\<close>.
\<close>

fun call_chain ::
  "('a, 'r) curried \<times> 'a log \<Rightarrow> 'a list list \<Rightarrow> (('a, 'r) curried \<times> 'a log) option" where
  "call_chain c [] = Some c"
| "call_chain (FrontEnd n fn largs, lg) (g # gs) = call_chain (call_front n fn largs g lg) gs"
| "call_chain (Result r, lg) (g # gs) = None"

text \<open>The callable \<open>(a, b) => a + b\<close> on integers (absent arguments do not occur here).\<close>

definition add2 :: "(int, int) target" where
  "add2 = \<lparr>flength = 2, body = (\<lambda>xs. xs ! 0 + xs ! 1)\<rparr>"

section \<open>Values and the object store\<close>

text \<open>
  A JavaScript number is \<open>NaN\<close>, an infinity or a finite double, which is a
  rational number. \<open>%\<close> and the comparisons of two doubles are exact, and \<open>+\<close> rounds
  the exact sum to the nearest double. \<open>-0\<close> is not told from \<open>0\<close> (no operation
  modelled here tells them apart).
\<close>

datatype jsnum = NaN | PInf | NInf | Fin rat

text \<open>
  A value is a primitive or a reference to an object in the store: two references are
  the same value exactly when they are the same address.
\<close>

datatype val = VUndefined | VNull | VBool bool | VNum jsnum | VStr string | VRef nat

datatype error = TypeError string | ReferenceError string | Thrown string

text \<open>
  The kinds of object the library tells apart. An array and an arguments object carry
  their elements; a function its source text (what \<open>ToPrimitive\<close> yields for it) and
  the value of its own, non-enumerable \<open>prototype\<close> property; a date its time value; a
  regular expression \<open>source\<close>, \<open>global\<close>, \<open>multiline\<close>, \<open>lastIndex\<close> and
  \<open>ignoreCase\<close>; a buffer its bytes. \<open>KProxy e\<close> is a proxy of a plain object whose
  only trap is \<open>ownKeys\<close>, which throws \<open>e\<close>: its own keys cannot be enumerated, every
  other operation is that of a plain object.
\<close>

datatype kind =
  KPlain
| KArray "val list"
| KArguments "val list"
| KFunction string val
| KDate jsnum
| KRegExp string bool bool val bool
| KBuffer "nat list"
| KProxy error

text \<open>
  An object: its kind and its other own enumerable properties, in insertion order.
  Objects inherit from the built-in prototypes only.
\<close>

record obj =
  kind :: kind
  named :: "(string \<times> val) list"

type_synonym heap = "nat \<Rightarrow> obj"

text \<open>What a call returns: a thrown error or a value; \<open>None\<close> when the recursion
  runs deeper than the fuel given (a cyclic value recurses without bound).\<close>

type_synonym 'a outcome = "(error + 'a) option"

text \<open>The decimal numeral of an array index, as a property name.\<close>

fun dec :: "nat \<Rightarrow> string" where
  "dec n = (if n < 10 then [''0123456789'' ! n]
            else dec (n div 10) @ [''0123456789'' ! (n mod 10)])"

declare dec.simps [simp del]

definition index_props :: "val list \<Rightarrow> (string \<times> val) list" where
  "index_props xs = zip (map dec [0..<length xs]) xs"

text \<open>
  The own enumerable properties of an object: the elements of an array, an arguments
  object or a buffer under their indices, then the named ones. A name bound twice
  counts once, with its first binding.
\<close>

definition own_props :: "obj \<Rightarrow> (string \<times> val) list" where
  "own_props ob =
     (case kind ob of
        KArray xs \<Rightarrow> index_props xs
      | KArguments xs \<Rightarrow> index_props xs
      | KBuffer bs \<Rightarrow> index_props (map (\<lambda>b. VNum (Fin (of_nat b))) bs)
      | _ \<Rightarrow> []) @ named ob"

text \<open>
  The own enumerable properties of a value, after \<open>ToObject\<close>: a string has its
  characters (code units) under their indices, a number or a boolean has none.
\<close>

definition string_props :: "string \<Rightarrow> (string \<times> val) list" where
  "string_props s = index_props (map (\<lambda>c. VStr [c]) s)"

fun props_of :: "heap \<Rightarrow> val \<Rightarrow> (string \<times> val) list" where
  "props_of h (VRef p) = own_props (h p)"
| "props_of h (VStr s) = string_props s"
| "props_of h v = []"

text \<open>
  \<open>Object.keys\<close>, as a current host has it: a \<open>TypeError\<close> on \<open>null\<close> and
  \<open>undefined\<close> only, the keys of the wrapper object on any other primitive, and what
  the \<open>ownKeys\<close> trap throws on a proxy.
\<close>

fun object_keys :: "heap \<Rightarrow> val \<Rightarrow> error + string list" where
  "object_keys h VNull = Inl (TypeError ''Cannot convert undefined or null to object'')"
| "object_keys h VUndefined = Inl (TypeError ''Cannot convert undefined or null to object'')"
| "object_keys h (VRef p) =
     (case kind (h p) of
        KProxy e \<Rightarrow> Inl e
      | _ \<Rightarrow> Inr (remdups (map fst (own_props (h p)))))"
| "object_keys h v = Inr (remdups (map fst (props_of h v)))"

text \<open>
  Reading a property: \<open>a[key]\<close> for an own enumerable key, or \<open>a.prototype\<close>; the
  engine reads no other. No built-in prototype has a property \<open>prototype\<close>, so where
  the own one is absent the read gives \<open>undefined\<close>. (\<open>null\<close> and \<open>undefined\<close> are
  never read.)
\<close>

fun get_prop :: "heap \<Rightarrow> val \<Rightarrow> string \<Rightarrow> val" where
  "get_prop h (VRef p) k =
     (case kind (h p) of
        KFunction src pr \<Rightarrow>
          (if k = ''prototype'' then pr
           else (case map_of (own_props (h p)) k of Some v \<Rightarrow> v | None \<Rightarrow> VUndefined))
      | _ \<Rightarrow> (case map_of (own_props (h p)) k of Some v \<Rightarrow> v | None \<Rightarrow> VUndefined))"
| "get_prop h (VStr s) k =
     (case map_of (string_props s) k of Some v \<Rightarrow> v | None \<Rightarrow> VUndefined)"
| "get_prop h v k = VUndefined"

text \<open>\<open>typeof\<close>.\<close>

fun js_typeof :: "heap \<Rightarrow> val \<Rightarrow> string" where
  "js_typeof h VUndefined = ''undefined''"
| "js_typeof h VNull = ''object''"
| "js_typeof h (VBool b) = ''boolean''"
| "js_typeof h (VNum x) = ''number''"
| "js_typeof h (VStr s) = ''string''"
| "js_typeof h (VRef p) = (case kind (h p) of KFunction src pr \<Rightarrow> ''function'' | _ \<Rightarrow> ''object'')"

text \<open>\<open>===\<close> on numbers and on values: \<open>NaN\<close> is not equal to itself.\<close>

definition num_eq :: "jsnum \<Rightarrow> jsnum \<Rightarrow> bool" where
  "num_eq x y = (x \<noteq> NaN \<and> x = y)"

fun strict_eq :: "val \<Rightarrow> val \<Rightarrow> bool" where
  "strict_eq (VNum x) (VNum y) = num_eq x y"
| "strict_eq a b = (a = b)"


text \<open>
  \<open>==\<close> (ECMAScript 5, 11.9.3) on the values whose \<open>typeof\<close> is not \<open>'object'\<close>,
  the only ones \<open>L.eqv\<close> applies it to: \<open>undefined\<close>, booleans, numbers, strings and
  functions. \<open>ToNumber\<close> on strings is the host's and a parameter \<open>tn\<close> of the model; a
  boolean converts to 0 or 1 and a function to its source text.
\<close>

datatype scalar = SUndefined | SBool bool | SNum jsnum | SStr string | SFun nat string

fun scalar_of :: "heap \<Rightarrow> val \<Rightarrow> scalar option" where
  "scalar_of h VUndefined = Some SUndefined"
| "scalar_of h VNull = None"
| "scalar_of h (VBool b) = Some (SBool b)"
| "scalar_of h (VNum x) = Some (SNum x)"
| "scalar_of h (VStr s) = Some (SStr s)"
| "scalar_of h (VRef p) = (case kind (h p) of KFunction src pr \<Rightarrow> Some (SFun p src) | _ \<Rightarrow> None)"

definition bool_num :: "bool \<Rightarrow> jsnum" where
  "bool_num b = Fin (if b then 1 else 0)"

fun scalar_loose_eq :: "(string \<Rightarrow> jsnum) \<Rightarrow> scalar \<Rightarrow> scalar \<Rightarrow> bool" where
  "scalar_loose_eq tn SUndefined y = (y = SUndefined)"
| "scalar_loose_eq tn x SUndefined = False"
| "scalar_loose_eq tn (SBool a) (SBool b) = (a = b)"
| "scalar_loose_eq tn (SBool a) (SNum y) = num_eq (bool_num a) y"
| "scalar_loose_eq tn (SBool a) (SStr t) = num_eq (bool_num a) (tn t)"
| "scalar_loose_eq tn (SBool a) (SFun q t) = num_eq (bool_num a) (tn t)"
| "scalar_loose_eq tn (SNum x) (SBool b) = num_eq x (bool_num b)"
| "scalar_loose_eq tn (SNum x) (SNum y) = num_eq x y"
| "scalar_loose_eq tn (SNum x) (SStr t) = num_eq x (tn t)"
| "scalar_loose_eq tn (SNum x) (SFun q t) = num_eq x (tn t)"
| "scalar_loose_eq tn (SStr s) (SBool b) = num_eq (tn s) (bool_num b)"
| "scalar_loose_eq tn (SStr s) (SNum y) = num_eq (tn s) y"
| "scalar_loose_eq tn (SStr s) (SStr t) = (s = t)"
| "scalar_loose_eq tn (SStr s) (SFun q t) = (s = t)"
| "scalar_loose_eq tn (SFun p s) (SBool b) = num_eq (tn s) (bool_num b)"
| "scalar_loose_eq tn (SFun p s) (SNum y) = num_eq (tn s) y"
| "scalar_loose_eq tn (SFun p s) (SStr t) = (s = t)"
| "scalar_loose_eq tn (SFun p s) (SFun q t) = (p = q)"

definition loose_eq :: "(string \<Rightarrow> jsnum) \<Rightarrow> heap \<Rightarrow> val \<Rightarrow> val \<Rightarrow> bool" where
  "loose_eq tn h a b =
     (case (scalar_of h a, scalar_of h b) of
        (Some x, Some y) \<Rightarrow> scalar_loose_eq tn x y
      | _ \<Rightarrow> False)"

section \<open>Types (\<open>L.type\<close> and the tests it uses)\<close>

text \<open>
  \<open>L.isArgumentsObject\<close>: \<open>toString.call(x) == '[object Arguments]'\<close> (the fallback on
  \<open>callee\<close> is installed only where that test fails on a real arguments object).
\<close>

fun L_isArgumentsObject :: "heap \<Rightarrow> val \<Rightarrow> bool" where
  "L_isArgumentsObject h (VRef p) = (case kind (h p) of KArguments xs \<Rightarrow> True | _ \<Rightarrow> False)"
| "L_isArgumentsObject h v = False"


section \<open>Arithmetic wrappers (\<open>L.rem\<close>, \<open>L.mod\<close>)\<close>













section \<open>The structural equivalence engine (\<open>L.eqv\<close>, \<open>objEquiv\<close>)\<close>

text \<open>The loop of the buffer rule, after the lengths were found equal.\<close>

definition buffer_eq :: "nat list \<Rightarrow> nat list \<Rightarrow> bool" where
  "buffer_eq xs ys =
     (if length xs \<noteq> length ys then False
      else \<not> list_ex (\<lambda>(x, y). x \<noteq> y) (zip xs ys))"

text \<open>
  The rules of \<open>L.eqv\<close> that look inside two objects of one built-in class: buffers,
  dates (\<open>getTime()\<close>) and regular expressions. \<open>None\<close> when no such rule applies.
  (Buffers exist only on a host where \<open>hasBuffer\<close> is true.)
\<close>

fun class_rule :: "kind \<Rightarrow> kind \<Rightarrow> bool option" where
  "class_rule (KBuffer xs) (KBuffer ys) = Some (buffer_eq xs ys)"
| "class_rule (KDate s) (KDate t) = Some (num_eq s t)"
| "class_rule (KRegExp s g m li ic) (KRegExp s' g' m' li' ic') =
     Some (s = s' \<and> g = g' \<and> m = m' \<and> strict_eq li li' \<and> ic = ic')"
| "class_rule k k' = None"

fun builtin_rule :: "heap \<Rightarrow> val \<Rightarrow> val \<Rightarrow> bool option" where
  "builtin_rule h (VRef p) (VRef q) = class_rule (kind (h p)) (kind (h q))"
| "builtin_rule h a b = None"

text \<open>
  The two loops of \<open>objEquiv\<close> over the sorted keys, \<open>i\<close> running from
  \<open>ka.length - 1\<close> down to 0: the second argument is \<open>i + 1\<close>. \<open>eqv_rec\<close> is the
  recursive call of \<open>L.eqv\<close>; what it throws propagates.
\<close>

primrec key_test :: "string list \<Rightarrow> string list \<Rightarrow> nat \<Rightarrow> bool" where
  "key_test ka kb 0 = True"
| "key_test ka kb (Suc i) = (if ka ! i \<noteq> kb ! i then False else key_test ka kb i)"

primrec deep_test ::
  "(val \<Rightarrow> val \<Rightarrow> bool outcome) \<Rightarrow> heap \<Rightarrow> string list \<Rightarrow> val \<Rightarrow> val \<Rightarrow> nat \<Rightarrow> bool outcome" where
  "deep_test eqv_rec h ka a b 0 = Some (Inr True)"
| "deep_test eqv_rec h ka a b (Suc i) =
     (case eqv_rec (get_prop h a (ka ! i)) (get_prop h b (ka ! i)) of
        None \<Rightarrow> None
      | Some (Inl e) \<Rightarrow> Some (Inl e)
      | Some (Inr r) \<Rightarrow> if \<not> r then Some (Inr False) else deep_test eqv_rec h ka a b i)"

text \<open>
  \<open>objEquiv(a, b)\<close>. \<open>pSlice\<close> is declared nowhere in the source, so reading it
  throws a \<open>ReferenceError\<close>. The \<open>try\<close> covers the two calls of \<open>Object.keys\<close> only.
\<close>

definition objEquiv ::
  "(val \<Rightarrow> val \<Rightarrow> bool outcome) \<Rightarrow> heap \<Rightarrow> val \<Rightarrow> val \<Rightarrow> bool outcome" where
  "objEquiv eqv_rec h a b =
     (if (a = VNull \<or> a = VUndefined) \<or> (b = VNull \<or> b = VUndefined) then Some (Inr False)
      else if \<not> strict_eq (get_prop h a ''prototype'') (get_prop h b ''prototype'')
      then Some (Inr False)
      else if L_isArgumentsObject h a then
        (if \<not> L_isArgumentsObject h b then Some (Inr False)
         else Some (Inl (ReferenceError ''pSlice is not defined'')))
      else
        (case object_keys h a of
           Inl e \<Rightarrow> Some (Inr False)
         | Inr ka \<Rightarrow>
            (case object_keys h b of
               Inl e \<Rightarrow> Some (Inr False)
             | Inr kb \<Rightarrow>
                 if length ka \<noteq> length kb then Some (Inr False)
                 else if \<not> key_test (sort ka) (sort kb) (length ka) then Some (Inr False)
                 else deep_test eqv_rec h (sort ka) a b (length ka))))"

text \<open>
  \<open>L.eqv(a, b)\<close>, called with both arguments. The first argument is the fuel: the
  depth of recursion allowed.
\<close>

primrec L_eqv :: "nat \<Rightarrow> (string \<Rightarrow> jsnum) \<Rightarrow> heap \<Rightarrow> val \<Rightarrow> val \<Rightarrow> bool outcome" where
  "L_eqv 0 tn h a b = None"
| "L_eqv (Suc n) tn h a b =
     (if strict_eq a b then Some (Inr True)
      else (case builtin_rule h a b of
              Some r \<Rightarrow> Some (Inr r)
            | None \<Rightarrow>
                if js_typeof h a \<noteq> ''object'' \<and> js_typeof h b \<noteq> ''object''
                then Some (Inr (loose_eq tn h a b))
                else objEquiv (L_eqv n tn h) h a b))"

text \<open>
  The comparison of \<open>a\<close> and \<open>b\<close> reaches the composite rule: none of the rules before
  it in \<open>L.eqv\<close> applies.
\<close>

definition composite_rule :: "heap \<Rightarrow> val \<Rightarrow> val \<Rightarrow> bool" where
  "composite_rule h a b =
     (\<not> strict_eq a b \<and> builtin_rule h a b = None
      \<and> \<not> (js_typeof h a \<noteq> ''object'' \<and> js_typeof h b \<noteq> ''object''))"

section \<open>Ordering (\<open>L.lt\<close>, \<open>L.gt\<close>)\<close>











section \<open>Concrete hosts and stores\<close>

text \<open>
  A \<open>ToNumber\<close> for the examples: the value of a string of decimal digits, 0 for the
  empty string. No example below compares a string with a number.
\<close>

definition digit_val :: "char \<Rightarrow> nat option" where
  "digit_val c = (if c \<in> set ''0123456789'' then Some (of_char c - 48) else None)"

fun digits_num :: "string \<Rightarrow> int \<Rightarrow> jsnum" where
  "digits_num [] acc = Fin (of_int acc)"
| "digits_num (c # cs) acc =
     (case digit_val c of None \<Rightarrow> NaN | Some d \<Rightarrow> digits_num cs (10 * acc + int d))"

definition to_number :: "string \<Rightarrow> jsnum" where
  "to_number s = digits_num s 0"

text \<open>A store whose objects are all empty plain objects, and stores built from it.\<close>

definition empty_object :: obj where
  "empty_object = \<lparr>kind = KPlain, named = []\<rparr>"

definition store0 :: heap where
  "store0 = (\<lambda>p. empty_object)"

text \<open>\<open>{a: 1, b: {c: NaN}}\<close> at address 1, its inner object at address 2.\<close>

definition store_nested :: heap where
  "store_nested = store0
     (1 := \<lparr>kind = KPlain, named = [(''a'', VNum (Fin 1)), (''b'', VRef 2)]\<rparr>,
      2 := \<lparr>kind = KPlain, named = [(''c'', VNum NaN)]\<rparr>)"

text \<open>
  Two arguments objects, as of \<open>(function () { return arguments; })(1)\<close>, at
  addresses 1 and 3, and the array \<open>[1]\<close> at address 2.
\<close>

definition store_args :: heap where
  "store_args = store0
     (1 := \<lparr>kind = KArguments [VNum (Fin 1)], named = []\<rparr>,
      2 := \<lparr>kind = KArray [VNum (Fin 1)], named = []\<rparr>,
      3 := \<lparr>kind = KArguments [VNum (Fin 1)], named = []\<rparr>)"

text \<open>\<open>{"0": 1}\<close>, \<open>[1]\<close>, \<open>{}\<close> and \<open>[]\<close> at addresses 1 to 4.\<close>

definition store_records :: heap where
  "store_records = store0
     (1 := \<lparr>kind = KPlain, named = [(''0'', VNum (Fin 1))]\<rparr>,
      2 := \<lparr>kind = KArray [VNum (Fin 1)], named = []\<rparr>,
      3 := \<lparr>kind = KPlain, named = []\<rparr>,
      4 := \<lparr>kind = KArray [], named = []\<rparr>)"



text \<open>
  A proxy whose \<open>ownKeys\<close> trap throws, at address 1; \<open>{x: args, y: 1}\<close> at addresses
  2 and 3, with two distinct arguments objects at addresses 4 and 5 for \<open>args\<close>.
\<close>

definition store_proxy :: heap where
  "store_proxy = store0
     (1 := \<lparr>kind = KProxy (Thrown ''no keys''), named = []\<rparr>,
      2 := \<lparr>kind = KPlain, named = [(''x'', VRef 4), (''y'', VNum (Fin 1))]\<rparr>,
      3 := \<lparr>kind = KPlain, named = [(''x'', VRef 5), (''y'', VNum (Fin 1))]\<rparr>,
      4 := \<lparr>kind = KArguments [], named = []\<rparr>,
      5 := \<lparr>kind = KArguments [], named = []\<rparr>)"

section \<open>Properties of the curry engine\<close>

text \<open>
  A front end that still lacks arguments, called with the groups \<open>gs\<close>, the last of
  which reaches the arity: the target is invoked once, with the first \<open>n\<close> arguments.
\<close>

lemma call_chain_front:
  assumes "length largs < n" "n \<le> length (largs @ concat gs)"
    and "gs \<noteq> []" "length (largs @ concat (butlast gs)) < n"
  shows "call_chain (FrontEnd n fn largs, lg) gs =
         Some (Result (body fn (take n (largs @ concat gs))), lg @ [take n (largs @ concat gs)])"
  using assms
proof (induction gs arbitrary: largs)
  case Nil
  then show ?case by simp
next
  case (Cons g gs)
  show ?case
  proof (cases "gs = []")
    case True
    with Cons.prems show ?thesis
      by (simp add: call_front_def invoke_def)
  next
    case False
    with Cons.prems have short: "length (largs @ g) < n"
      by simp
    have "call_chain (FrontEnd n fn (largs @ g), lg) gs =
          Some (Result (body fn (take n ((largs @ g) @ concat gs))),
                lg @ [take n ((largs @ g) @ concat gs)])"
      using Cons.prems False short by (intro Cons.IH) simp_all
    with short show ?thesis
      by (simp add: call_front_def L_ncurry_def)
  qed
qed

lemma concat_butlast_shorter:
  assumes "gs \<noteq> []" "last gs \<noteq> []"
  shows "length (concat (butlast gs)) < length (concat gs)"
proof -
  have "concat gs = concat (butlast gs) @ last gs"
    using assms(1) by (metis append_butlast_last_id concat.simps concat_append append_Nil2)
  with assms(2) show ?thesis by simp
qed

text \<open>
  C1: for a target \<open>f\<close> and \<open>n\<close> arguments split into consecutive non-empty groups
  \<open>gs\<close>, calling the front end \<open>L.ncurry(n, f)\<close> with each group in turn returns what
  \<open>f\<close> returns on all \<open>n\<close> arguments in their order, and \<open>f\<close> is invoked exactly once
  (the call log holds that one invocation); the same for \<open>L.curry(f)\<close> when \<open>n\<close> is the
  declared arity of \<open>f\<close>.
\<close>

theorem ncurry_partition:
  assumes "\<forall>g \<in> set gs. g \<noteq> []" and "length (concat gs) = n"
  shows "call_chain (L_ncurry n f [] []) gs = Some (Result (body f (concat gs)), [concat gs])
       \<and> (flength f = n \<longrightarrow>
            call_chain (L_curry f [] []) gs = Some (Result (body f (concat gs)), [concat gs]))"
proof -
  have main: "call_chain (L_ncurry n f [] []) gs = Some (Result (body f (concat gs)), [concat gs])"
  proof (cases "gs = []")
    case True
    with assms(2) show ?thesis
      by (simp add: L_ncurry_def L_apply_def invoke_def)
  next
    case False
    with assms(1) have "last gs \<noteq> []" by simp
    with False have less: "length (concat (butlast gs)) < n"
      using concat_butlast_shorter assms(2) by blast
    then have pos: "0 < n" by simp
    have "call_chain (FrontEnd n f [], []) gs =
          Some (Result (body f (take n ([] @ concat gs))), [] @ [take n ([] @ concat gs)])"
      using pos assms(2) False less by (intro call_chain_front) simp_all
    with pos assms(2) show ?thesis
      by (simp add: L_ncurry_def)
  qed
  then show ?thesis by (simp add: L_curry_def)
qed

theorem ncurry_partition_witness:
  "call_chain (L_ncurry 3 \<lparr>flength = 3, body = sum_list\<rparr> [] []) [[1], [2, 3::int]] =
     Some (Result 6, [[1, 2, 3]])
   \<and> call_chain (L_curry \<lparr>flength = 3, body = sum_list\<rparr> [] []) [[1], [2, 3::int]] =
     Some (Result 6, [[1, 2, 3]])"
  using ncurry_partition [of "[[1], [2, 3::int]]" 3 "\<lparr>flength = 3, body = sum_list\<rparr>"]
  by simp

text \<open>
  C2: when the pre-applied arguments and the groups of the successive calls reach \<open>n\<close>
  or more arguments in all (the calls before the last one staying below \<open>n\<close>), \<open>f\<close>
  is invoked once, with exactly the first \<open>n\<close> of them, and its result is returned: the
  arguments past the first \<open>n\<close> never reach \<open>f\<close>. The witness is
  \<open>curryWithArity(2, (a, b) => a + b)(1, 2, 3) == 3\<close>.
\<close>

theorem ncurry_surplus:
  assumes "n \<le> length (pre @ concat gs)"
    and "gs \<noteq> [] \<Longrightarrow> length (pre @ concat (butlast gs)) < n"
  shows "call_chain (L_ncurry n f pre []) gs =
         Some (Result (body f (take n (pre @ concat gs))), [take n (pre @ concat gs)])"
proof (cases "gs = []")
  case True
  with assms(1) show ?thesis
    by (simp add: L_ncurry_def L_apply_def invoke_def)
next
  case False
  with assms(2) have less: "length (pre @ concat (butlast gs)) < n" by simp
  then have short: "length pre < n" by simp
  have "call_chain (FrontEnd n f pre, []) gs =
        Some (Result (body f (take n (pre @ concat gs))), [] @ [take n (pre @ concat gs)])"
    using short assms(1) False less by (rule call_chain_front)
  with short show ?thesis
    by (simp add: L_ncurry_def)
qed

theorem ncurry_surplus_witness:
  "call_chain (L_ncurry 2 add2 [] []) [[1, 2, 3]] = Some (Result 3, [[1, 2]])"
  using ncurry_surplus [of 2 "[]" "[[1, 2, 3]]" add2]
  by (simp add: add2_def)

section \<open>Properties of the arithmetic wrappers\<close>
















lemma floor_rat_numeral [simp]:
  "\<lfloor>numeral a / numeral b :: rat\<rfloor> = numeral a div numeral b"
  using floor_divide_of_int_eq [of "numeral a" "numeral b", where ?'a = rat] by simp

lemma floor_rat_one_numeral [simp]:
  "\<lfloor>1 / numeral b :: rat\<rfloor> = 1 div numeral b"
  using floor_divide_of_int_eq [of 1 "numeral b", where ?'a = rat] by simp




section \<open>Properties of the equivalence engine\<close>

lemma strict_eq_refl: "strict_eq x x = (x \<noteq> VNum NaN)"
  by (cases x) (auto simp: num_eq_def)

lemma strict_eq_sym: "strict_eq a b = strict_eq b a"
  by (cases a; cases b) (auto simp: num_eq_def)


text \<open>
  C3, amended: for every value \<open>x\<close> other than the number \<open>NaN\<close>, composite values
  (also cyclic ones) included, \<open>L.eqv(x, x)\<close> returns true, by the identity rule, at any
  fuel that allows the call.
\<close>

theorem eqv_reflexive:
  "x \<noteq> VNum NaN \<Longrightarrow> L_eqv (Suc n) tn h x x = Some (Inr True)"
  by (simp add: strict_eq_refl)

theorem eqv_reflexive_witness:
  "L_eqv (Suc 0) to_number store_nested (VRef 1) (VRef 1) = Some (Inr True)"
  using eqv_reflexive [of "VRef 1" 0 to_number store_nested]
  by simp

text \<open>
  C3 as stated fails at \<open>NaN\<close>: \<open>NaN === NaN\<close> and \<open>NaN == NaN\<close> are both false, so
  \<open>L.eqv(NaN, NaN)\<close> returns false.
\<close>

theorem eqv_nan_counterexample:
  "L_eqv (Suc 0) to_number store0 (VNum NaN) (VNum NaN) = Some (Inr False)"
  by (simp add: num_eq_def loose_eq_def)

lemma objEquiv_null:
  "a = VNull \<or> a = VUndefined \<or> b = VNull \<or> b = VUndefined \<Longrightarrow>
   objEquiv r h a b = Some (Inr False)"
  by (auto simp: objEquiv_def)

lemma builtin_rule_nonref:
  "(\<forall>p. a \<noteq> VRef p) \<or> (\<forall>q. b \<noteq> VRef q) \<Longrightarrow> builtin_rule h a b = None"
  by (cases a; cases b) auto

lemma loose_eq_undefined:
  "loose_eq tn h VUndefined b = (scalar_of h b = Some SUndefined)"
  "loose_eq tn h a VUndefined = (scalar_of h a = Some SUndefined)"
  by (cases "scalar_of h b"; cases "scalar_of h a"; simp add: loose_eq_def;
      cases "the (scalar_of h b)"; cases "the (scalar_of h a)"; simp)+

lemma scalar_of_undefined: "scalar_of h v = Some SUndefined \<longleftrightarrow> v = VUndefined"
  by (cases v) (auto split: kind.splits)

text \<open>
  C9: \<open>objEquiv\<close>, the composite rule, returns false when either value is \<open>null\<close>
  or \<open>undefined\<close>, also when both are; so \<open>L.eqv\<close> returns false on such a value and any
  other value, in particular on \<open>(null, undefined)\<close> and \<open>(undefined, null)\<close>, while
  \<open>L.eqv(null, null)\<close> is true, by the identity rule alone.
\<close>

theorem eqv_null_absent:
  "(a = VNull \<or> a = VUndefined \<or> b = VNull \<or> b = VUndefined \<longrightarrow>
      objEquiv r h a b = Some (Inr False)
      \<and> (a \<noteq> b \<longrightarrow> L_eqv (Suc n) tn h a b = Some (Inr False)))
   \<and> L_eqv (Suc n) tn h VNull VUndefined = Some (Inr False)
   \<and> L_eqv (Suc n) tn h VUndefined VNull = Some (Inr False)
   \<and> L_eqv (Suc n) tn h VNull VNull = Some (Inr True)
   \<and> objEquiv r h VNull VNull = Some (Inr False)"
proof -
  have gen: "L_eqv (Suc n) tn h a b = Some (Inr False)"
    if na: "a = VNull \<or> a = VUndefined \<or> b = VNull \<or> b = VUndefined" and ne: "a \<noteq> b"
    for a b
  proof -
    from na ne have s: "\<not> strict_eq a b"
      by (cases a; cases b) auto
    from na have br: "builtin_rule h a b = None"
      by (intro builtin_rule_nonref) auto
    show ?thesis
    proof (cases "js_typeof h a \<noteq> ''object'' \<and> js_typeof h b \<noteq> ''object''")
      case True
      with na have "a = VUndefined \<or> b = VUndefined" by auto
      with ne have "\<not> loose_eq tn h a b"
        by (auto simp: loose_eq_undefined scalar_of_undefined)
      with s br True show ?thesis by simp
    next
      case False
      with s br na show ?thesis by (auto simp: objEquiv_null)
    qed
  qed
  have a: "L_eqv (Suc n) tn h VNull VUndefined = Some (Inr False)"
    by (rule gen) simp_all
  have b: "L_eqv (Suc n) tn h VUndefined VNull = Some (Inr False)"
    by (rule gen) simp_all
  from gen [of a b] a b show ?thesis
    by (simp add: objEquiv_null)
qed

theorem eqv_null_absent_witness:
  "L_eqv (Suc 0) to_number store0 VNull (VRef 1) = Some (Inr False)
   \<and> objEquiv (L_eqv 0 to_number store0) store0 VUndefined VUndefined = Some (Inr False)"
  using eqv_null_absent [of VNull "VRef 1" "L_eqv 0 to_number store0" store0 0 to_number]
    eqv_null_absent [of VUndefined VUndefined "L_eqv 0 to_number store0" store0 0 to_number]
  by simp

text \<open>
  The loops of \<open>objEquiv\<close>: the key test holds exactly when the two sorted key lists
  are equal, and the deep test passes on what the recursive call returns.
\<close>

lemma key_test_take:
  "i \<le> length ka \<Longrightarrow> i \<le> length kb \<Longrightarrow> key_test ka kb i = (take i ka = take i kb)"
proof (induction i)
  case 0
  then show ?case by simp
next
  case (Suc i)
  then have "take (Suc i) ka = take i ka @ [ka ! i]" "take (Suc i) kb = take i kb @ [kb ! i]"
    by (simp_all add: take_Suc_conv_app_nth)
  with Suc show ?case by auto
qed

lemma key_test_eq: "length ka = length kb \<Longrightarrow> key_test ka kb (length ka) = (ka = kb)"
  by (simp add: key_test_take)

lemma deep_test_true:
  assumes "\<forall>k \<in> set ks. r (get_prop h a k) (get_prop h b k) = Some (Inr True)"
    and "i \<le> length ks"
  shows "deep_test r h ks a b i = Some (Inr True)"
  using assms(2)
proof (induction i)
  case 0
  then show ?case by simp
next
  case (Suc i)
  then have "ks ! i \<in> set ks" by simp
  with assms(1) have "r (get_prop h a (ks ! i)) (get_prop h b (ks ! i)) = Some (Inr True)"
    by blast
  with Suc show ?case by simp
qed

lemma deep_test_sym:
  assumes "\<And>x y. r x y = r y x"
  shows "deep_test r h ks a b i = deep_test r h ks b a i"
proof (induction i)
  case 0
  show ?case by simp
next
  case (Suc i)
  have eq: "r (get_prop h a (ks ! i)) (get_prop h b (ks ! i)) =
            r (get_prop h b (ks ! i)) (get_prop h a (ks ! i))"
    by (rule assms)
  show ?case
    by (subst deep_test.simps, subst eq, subst Suc.IH) simp
qed

lemma key_test_sort:
  "length ka = length kb \<Longrightarrow> key_test (sort ka) (sort kb) (length ka) = (sort ka = sort kb)"
  using key_test_eq [of "sort ka" "sort kb"] by simp

lemma key_test_sort':
  "length ka = length kb \<Longrightarrow> key_test (sort ka) (sort kb) (length kb) = (sort ka = sort kb)"
  using key_test_eq [of "sort ka" "sort kb"] by simp

lemma deep_test_error:
  assumes "\<And>x y e. r x y = Some (Inl e) \<Longrightarrow> P e"
    and "deep_test r h ks a b i = Some (Inl e)"
  shows "P e"
  using assms(2)
proof (induction i)
  case 0
  then show ?case by simp
next
  case (Suc i)
  then show ?case
    by (auto split: option.splits sum.splits if_splits dest: assms(1))
qed

text \<open>
  Two objects with the same keys and equivalent values under every key.
\<close>

lemma object_keys_ref:
  "\<forall>e. kind (h p) \<noteq> KProxy e \<Longrightarrow>
   object_keys h (VRef p) = Inr (remdups (map fst (own_props (h p))))"
  by (cases "kind (h p)") auto

lemma objEquiv_same_keys:
  assumes args: "\<not> L_isArgumentsObject h (VRef p)"
    and kp: "\<forall>e. kind (h p) \<noteq> KProxy e" and kq: "\<forall>e. kind (h q) \<noteq> KProxy e"
    and proto: "strict_eq (get_prop h (VRef p) ''prototype'') (get_prop h (VRef q) ''prototype'')"
    and keys: "sort (remdups (map fst (own_props (h p)))) = sort (remdups (map fst (own_props (h q))))"
    and vals: "\<forall>k \<in> set (map fst (own_props (h p))).
           r (get_prop h (VRef p) k) (get_prop h (VRef q) k) = Some (Inr True)"
  shows "objEquiv r h (VRef p) (VRef q) = Some (Inr True)"
proof -
  let ?ka = "remdups (map fst (own_props (h p)))" and ?kb = "remdups (map fst (own_props (h q)))"
  have len: "length ?ka = length ?kb"
    using keys by (metis length_sort)
  have kt: "key_test (sort ?ka) (sort ?kb) (length ?ka)"
    using key_test_eq [of "sort ?ka" "sort ?kb"] keys len by simp
  have "\<forall>k \<in> set (sort ?ka). r (get_prop h (VRef p) k) (get_prop h (VRef q) k) = Some (Inr True)"
    using vals by simp
  then have "deep_test r h (sort ?ka) (VRef p) (VRef q) (length ?ka) = Some (Inr True)"
    by (rule deep_test_true) simp
  with args proto len kt show ?thesis
    by (simp add: objEquiv_def object_keys_ref [of h p, OF kp] object_keys_ref [of h q, OF kq]
        del: object_keys.simps)
qed

text \<open>
  \<open>objEquiv\<close> on a first operand that is no arguments object, with the key test read
  as an equality of lists.
\<close>

lemma objEquiv_keys:
  assumes "\<not> L_isArgumentsObject h a"
  shows "objEquiv r h a b =
    (if (a = VNull \<or> a = VUndefined) \<or> (b = VNull \<or> b = VUndefined) then Some (Inr False)
     else if \<not> strict_eq (get_prop h a ''prototype'') (get_prop h b ''prototype'')
     then Some (Inr False)
     else (case object_keys h a of
             Inl e \<Rightarrow> Some (Inr False)
           | Inr ka \<Rightarrow>
              (case object_keys h b of
                 Inl e \<Rightarrow> Some (Inr False)
               | Inr kb \<Rightarrow>
                   if length ka \<noteq> length kb \<or> sort ka \<noteq> sort kb then Some (Inr False)
                   else deep_test r h (sort ka) a b (length ka))))"
  using assms by (auto simp: objEquiv_def key_test_sort key_test_sort' split: sum.splits)

lemma objEquiv_sym:
  assumes "\<And>x y. r x y = r y x"
    and "\<not> L_isArgumentsObject h a" "\<not> L_isArgumentsObject h b"
  shows "objEquiv r h a b = objEquiv r h b a"
proof -
  have dt: "deep_test r h ks a b i = deep_test r h ks b a i" for ks i
    by (rule deep_test_sym) (rule assms(1))
  show ?thesis
    unfolding objEquiv_keys [OF assms(2)] objEquiv_keys [OF assms(3)]
    by (auto simp: dt strict_eq_sym [of "get_prop h a ''prototype''"] split: sum.splits)
qed

lemma buffer_eq_sym: "buffer_eq xs ys = buffer_eq ys xs"
proof -
  have "list_ex (\<lambda>(x, y). x \<noteq> y) (zip xs ys) =
        (\<exists>i < min (length xs) (length ys). xs ! i \<noteq> ys ! i)" for xs ys :: "nat list"
    by (auto simp: list_ex_iff set_zip)
  then have "list_ex (\<lambda>(x, y). x \<noteq> y) (zip xs ys) = list_ex (\<lambda>(x, y). x \<noteq> y) (zip ys xs)"
    by (auto simp: min.commute)
  then show ?thesis by (auto simp: buffer_eq_def)
qed

lemma num_eq_sym: "num_eq x y = num_eq y x"
  by (auto simp: num_eq_def)

lemma class_rule_sym: "class_rule k k' = class_rule k' k"
  by (cases k; cases k')
     (auto simp: buffer_eq_sym [of "_ :: nat list"] num_eq_sym [of "_ :: jsnum"]
                 strict_eq_sym [of "_ :: val"])

lemma builtin_rule_sym: "builtin_rule h a b = builtin_rule h b a"
  by (cases a; cases b) (simp_all add: class_rule_sym)

lemma scalar_loose_eq_sym: "scalar_loose_eq tn x y = scalar_loose_eq tn y x"
  by (cases x; cases y) (auto simp: num_eq_def)

lemma loose_eq_sym: "loose_eq tn h a b = loose_eq tn h b a"
  by (auto simp: loose_eq_def scalar_loose_eq_sym split: option.splits)

text \<open>
  Where the store holds no arguments object, \<open>L.eqv\<close> is symmetric.
\<close>

lemma eqv_symmetric_without_arguments:
  assumes "\<And>v. \<not> L_isArgumentsObject h v"
  shows "L_eqv n tn h a b = L_eqv n tn h b a"
proof (induction n arbitrary: a b)
  case 0
  show ?case by simp
next
  case (Suc n)
  have "objEquiv (L_eqv n tn h) h a b = objEquiv (L_eqv n tn h) h b a"
    using Suc.IH assms by (intro objEquiv_sym) auto
  then show ?case
    by (auto simp: strict_eq_sym [of a b] builtin_rule_sym [of h a b] loose_eq_sym [of tn h a b]
        split: option.splits)
qed

text \<open>
  Where \<open>Object.keys\<close> throws on one of the two values, \<open>objEquiv\<close> returns false:
  at its first test on \<open>null\<close> and \<open>undefined\<close>, at the \<open>catch\<close> on a proxy.
\<close>

lemma arguments_keys:
  "L_isArgumentsObject h v \<Longrightarrow> \<not> isl (object_keys h v)"
  by (cases v) (auto split: kind.splits)

lemma objEquiv_keys_fail:
  assumes "isl (object_keys h a) \<or> isl (object_keys h b)"
  shows "objEquiv r h a b = Some (Inr False)"
proof -
  have "\<not> L_isArgumentsObject h b" if "L_isArgumentsObject h a"
    using that assms arguments_keys by blast
  with assms show ?thesis
    by (auto simp: objEquiv_def split: sum.splits)
qed

lemma class_rule_proxy: "class_rule (KProxy e) k = None" "class_rule k (KProxy e) = None"
  by (cases k; simp)+

lemma builtin_rule_keys_fail:
  assumes "isl (object_keys h a) \<or> isl (object_keys h b)"
  shows "builtin_rule h a b = None"
proof (cases "(\<exists>p. a = VRef p) \<and> (\<exists>q. b = VRef q)")
  case True
  then obtain p q where ab: "a = VRef p" "b = VRef q" by blast
  with assms have "(\<exists>e. kind (h p) = KProxy e) \<or> (\<exists>e. kind (h q) = KProxy e)"
    by (auto split: kind.splits)
  with ab show ?thesis by (auto simp: class_rule_proxy)
next
  case False
  then show ?thesis by (intro builtin_rule_nonref) auto
qed

text \<open>
  What \<open>L.eqv\<close> throws: never what the key enumeration threw, only the
  \<open>ReferenceError\<close> of the undeclared \<open>pSlice\<close>.
\<close>

lemma objEquiv_error:
  assumes "\<And>x y e. r x y = Some (Inl e) \<Longrightarrow> e = ReferenceError ''pSlice is not defined''"
    and "objEquiv r h a b = Some (Inl e)"
  shows "e = ReferenceError ''pSlice is not defined''"
  using assms(2) deep_test_error [of r "\<lambda>e. e = ReferenceError ''pSlice is not defined''", OF assms(1)]
  by (auto simp: objEquiv_def split: if_splits sum.splits)

lemma eqv_error:
  "L_eqv n tn h a b = Some (Inl e) \<Longrightarrow> e = ReferenceError ''pSlice is not defined''"
proof (induction n arbitrary: a b e)
  case 0
  then show ?case by simp
next
  case (Suc n)
  from Suc.prems have "objEquiv (L_eqv n tn h) h a b = Some (Inl e)"
    by (auto split: if_splits option.splits)
  then show ?case
    using Suc.IH by (rule objEquiv_error [rotated])
qed

lemma eqv_two_arguments:
  assumes "L_isArgumentsObject h a" "L_isArgumentsObject h b" "a \<noteq> b"
    and "strict_eq (get_prop h a ''prototype'') (get_prop h b ''prototype'')"
  shows "L_eqv (Suc n) tn h a b = Some (Inl (ReferenceError ''pSlice is not defined''))"
proof -
  from assms(1) obtain p xs where a: "a = VRef p" "kind (h p) = KArguments xs"
    by (cases a) (auto split: kind.splits)
  from assms(2) obtain q ys where b: "b = VRef q" "kind (h q) = KArguments ys"
    by (cases b) (auto split: kind.splits)
  from a b assms(3) have "\<not> strict_eq a b" "builtin_rule h a b = None"
    "js_typeof h a = ''object''" "a \<noteq> VNull" "a \<noteq> VUndefined" "b \<noteq> VNull" "b \<noteq> VUndefined"
    by simp_all
  with assms(1,2,4) show ?thesis
    by (simp add: objEquiv_def)
qed

text \<open>
  The deep test runs from the last key down: where every key after the \<open>i\<close>-th
  compares equivalent and the comparison under the \<open>i\<close>-th throws, the loop throws.
\<close>

lemma deep_test_throws:
  assumes "i < m" "m \<le> length ks"
    and "\<forall>k \<in> set (drop (Suc i) (take m ks)).
           r (get_prop h a k) (get_prop h b k) = Some (Inr True)"
    and "r (get_prop h a (ks ! i)) (get_prop h b (ks ! i)) = Some (Inl e)"
  shows "deep_test r h ks a b m = Some (Inl e)"
  using assms(1-3)
proof (induction m)
  case 0
  then show ?case by simp
next
  case (Suc m)
  show ?case
  proof (cases "i = m")
    case True
    with assms(4) show ?thesis by simp
  next
    case False
    with Suc.prems have im: "i < m" and ml: "m < length ks" by simp_all
    have tk: "take (Suc m) ks = take m ks @ [ks ! m]"
      using ml by (simp add: take_Suc_conv_app_nth)
    have dr: "drop (Suc i) (take (Suc m) ks) = drop (Suc i) (take m ks) @ [ks ! m]"
      using im ml by (simp add: tk)
    from Suc.prems(3) have here: "r (get_prop h a (ks ! m)) (get_prop h b (ks ! m)) = Some (Inr True)"
      by (simp add: dr)
    from Suc.prems(3) have "\<forall>k \<in> set (drop (Suc i) (take m ks)).
           r (get_prop h a k) (get_prop h b k) = Some (Inr True)"
      by (simp add: dr)
    with im ml have "deep_test r h ks a b m = Some (Inl e)"
      by (intro Suc.IH) simp_all
    with here show ?thesis by simp
  qed
qed

lemma eqv_nested_throws:
  assumes reach: "composite_rule h a b"
    and args: "\<not> L_isArgumentsObject h a"
    and proto: "strict_eq (get_prop h a ''prototype'') (get_prop h b ''prototype'')"
    and ka: "object_keys h a = Inr ka" and kb: "object_keys h b = Inr kb"
    and same: "sort ka = sort kb" and i: "i < length ka"
    and later: "\<forall>k \<in> set (drop (Suc i) (sort ka)).
           L_eqv n tn h (get_prop h a k) (get_prop h b k) = Some (Inr True)"
    and here: "L_eqv n tn h (get_prop h a (sort ka ! i)) (get_prop h b (sort ka ! i)) = Some (Inl e)"
  shows "L_eqv (Suc n) tn h a b = Some (Inl e)"
proof -
  have len: "length ka = length kb"
    using same by (metis length_sort)
  have kt: "key_test (sort ka) (sort kb) (length ka)"
    using key_test_sort [OF len] same by simp
  have nn: "a \<noteq> VNull" "a \<noteq> VUndefined" "b \<noteq> VNull" "b \<noteq> VUndefined"
    using ka kb by auto
  have "deep_test (L_eqv n tn h) h (sort ka) a b (length ka) = Some (Inl e)"
    using i later here by (intro deep_test_throws) simp_all
  with args proto ka kb len kt nn have "objEquiv (L_eqv n tn h) h a b = Some (Inl e)"
    by (simp add: objEquiv_def)
  with reach show ?thesis
    by (auto simp: composite_rule_def)
qed

text \<open>
  C6: where \<open>Object.keys\<close> throws on one of the two values, \<open>objEquiv\<close> returns false
  and \<open>L.eqv\<close> returns a boolean (true only by the identity rule or the scalar rule,
  which never enumerate keys). No other failure is recovered: an error that \<open>L.eqv\<close>
  throws is never the one of the key enumeration; the \<open>ReferenceError\<close> raised on two
  distinct arguments objects propagates; and what the comparison of two values under
  a key throws, every key after it in the sorted order comparing equivalent, is thrown by
  the comparison of the two objects. The witness is a proxy whose \<open>ownKeys\<close> trap
  throws, compared with \<open>{}\<close>, and two objects \<open>{x: args, y: 1}\<close> with distinct arguments
  objects.
\<close>

theorem keys_failure_caught:
  "(isl (object_keys h a) \<or> isl (object_keys h b) \<longrightarrow>
      objEquiv r h a b = Some (Inr False)
      \<and> L_eqv (Suc n) tn h a b =
          Some (Inr (strict_eq a b \<or>
                     js_typeof h a \<noteq> ''object'' \<and> js_typeof h b \<noteq> ''object'' \<and> loose_eq tn h a b)))
   \<and> (\<forall>m e. L_eqv m tn h a b = Some (Inl e) \<longrightarrow> e = ReferenceError ''pSlice is not defined'')
   \<and> (L_isArgumentsObject h a \<and> L_isArgumentsObject h b \<and> a \<noteq> b
       \<and> strict_eq (get_prop h a ''prototype'') (get_prop h b ''prototype'') \<longrightarrow>
      L_eqv (Suc n) tn h a b = Some (Inl (ReferenceError ''pSlice is not defined'')))
   \<and> (composite_rule h a b \<and> \<not> L_isArgumentsObject h a
       \<and> strict_eq (get_prop h a ''prototype'') (get_prop h b ''prototype'')
       \<and> object_keys h a = Inr ka \<and> object_keys h b = Inr kb \<and> sort ka = sort kb
       \<and> i < length ka
       \<and> (\<forall>k \<in> set (drop (Suc i) (sort ka)).
             L_eqv n tn h (get_prop h a k) (get_prop h b k) = Some (Inr True))
       \<and> L_eqv n tn h (get_prop h a (sort ka ! i)) (get_prop h b (sort ka ! i)) = Some (Inl e) \<longrightarrow>
      L_eqv (Suc n) tn h a b = Some (Inl e))"
proof -
  have one: "L_eqv (Suc n) tn h a b =
          Some (Inr (strict_eq a b \<or>
                     js_typeof h a \<noteq> ''object'' \<and> js_typeof h b \<noteq> ''object'' \<and> loose_eq tn h a b))"
    if f: "isl (object_keys h a) \<or> isl (object_keys h b)"
  proof -
    from f have "builtin_rule h a b = None" by (rule builtin_rule_keys_fail)
    with f show ?thesis by (simp add: objEquiv_keys_fail)
  qed
  show ?thesis
    using one objEquiv_keys_fail [of h a b r] eqv_error [of _ tn h a b]
      eqv_two_arguments [of h a b n tn] eqv_nested_throws [of h a b ka kb i n tn e]
    by blast
qed

theorem keys_failure_caught_witness:
  "L_eqv (Suc 0) to_number store_proxy (VRef 1) (VRef 6) = Some (Inr False)
   \<and> L_eqv (Suc 0) to_number store_proxy (VRef 4) (VRef 5) =
       Some (Inl (ReferenceError ''pSlice is not defined''))
   \<and> L_eqv (Suc (Suc 0)) to_number store_proxy (VRef 2) (VRef 3) =
       Some (Inl (ReferenceError ''pSlice is not defined''))"
proof -
  have defs: "store_proxy (Suc 0) = \<lparr>kind = KProxy (Thrown ''no keys''), named = []\<rparr>"
    "store_proxy 2 = \<lparr>kind = KPlain, named = [(''x'', VRef 4), (''y'', VNum (Fin 1))]\<rparr>"
    "store_proxy 3 = \<lparr>kind = KPlain, named = [(''x'', VRef 5), (''y'', VNum (Fin 1))]\<rparr>"
    "store_proxy 4 = \<lparr>kind = KArguments [], named = []\<rparr>"
    "store_proxy 5 = \<lparr>kind = KArguments [], named = []\<rparr>"
    "store_proxy 6 = \<lparr>kind = KPlain, named = []\<rparr>"
    by (simp_all add: store_proxy_def store0_def empty_object_def)
  have inner: "L_eqv (Suc 0) to_number store_proxy (VRef 4) (VRef 5) =
       Some (Inl (ReferenceError ''pSlice is not defined''))"
    using keys_failure_caught [of store_proxy "VRef 4" "VRef 5" "L_eqv 0 to_number store_proxy" 0
        to_number "[]" "[]" 0 "Thrown []"]
    by (simp add: defs own_props_def index_props_def)
  have proxy: "L_eqv (Suc 0) to_number store_proxy (VRef 1) (VRef 6) = Some (Inr False)"
    using keys_failure_caught [of store_proxy "VRef 1" "VRef 6" "L_eqv 0 to_number store_proxy" 0
        to_number "[]" "[]" 0 "Thrown []"]
    by (simp add: defs)
  have outer: "L_eqv (Suc (Suc 0)) to_number store_proxy (VRef 2) (VRef 3) =
       Some (Inl (ReferenceError ''pSlice is not defined''))"
    using keys_failure_caught [of store_proxy "VRef 2" "VRef 3" "L_eqv 0 to_number store_proxy"
        "Suc 0" to_number "[''x'', ''y'']" "[''x'', ''y'']" 0 "ReferenceError ''pSlice is not defined''"]
      inner
    by (simp add: defs own_props_def composite_rule_def num_eq_def)
  from proxy inner outer show ?thesis by simp
qed

lemma get_prop_absent:
  assumes "k \<notin> fst ` set (own_props (h p))" "\<forall>src pr. kind (h p) \<noteq> KFunction src pr"
  shows "get_prop h (VRef p) k = VUndefined"
proof -
  from assms(1) have "map_of (own_props (h p)) k = None"
    by (simp add: map_of_eq_None_iff)
  with assms(2) show ?thesis
    by (cases "kind (h p)") simp_all
qed

text \<open>
  C10: a plain object and an array with the same own enumerable keys, equivalent
  values under every key and no property \<open>prototype\<close> are equivalent: the check of the
  \<open>prototype\<close> property reads \<open>undefined\<close> on both, and only keys and values are
  compared. The witness is \<open>eqv({"0": 1}, [1])\<close> and \<open>eqv({}, [])\<close>.
\<close>

theorem record_sequence_equivalent:
  assumes "kind (h p) = KPlain" and "kind (h q) = KArray xs"
    and "sort (remdups (map fst (own_props (h p)))) = sort (remdups (map fst (own_props (h q))))"
    and "\<forall>k \<in> set (map fst (own_props (h p))).
           L_eqv n tn h (get_prop h (VRef p) k) (get_prop h (VRef q) k) = Some (Inr True)"
    and "''prototype'' \<notin> set (map fst (own_props (h p)))"
  shows "L_eqv (Suc n) tn h (VRef p) (VRef q) = Some (Inr True)"
proof -
  have "set (sort (remdups (map fst (own_props (h p))))) = set (sort (remdups (map fst (own_props (h q)))))"
    using assms(3) by simp
  then have same: "fst ` set (own_props (h p)) = fst ` set (own_props (h q))"
    by simp
  have "get_prop h (VRef p) ''prototype'' = VUndefined"
    using assms(1,5) by (intro get_prop_absent) simp_all
  moreover have "get_prop h (VRef q) ''prototype'' = VUndefined"
    using assms(2,5) same by (intro get_prop_absent) simp_all
  ultimately have "strict_eq (get_prop h (VRef p) ''prototype'') (get_prop h (VRef q) ''prototype'')"
    by simp
  moreover have "\<not> L_isArgumentsObject h (VRef p)"
    using assms(1) by simp
  ultimately have "objEquiv (L_eqv n tn h) h (VRef p) (VRef q) = Some (Inr True)"
    using assms(1-4) by (intro objEquiv_same_keys) simp_all
  then show ?thesis
    using assms(1,2) by auto
qed

theorem record_sequence_equivalent_witness:
  "L_eqv (Suc (Suc 0)) to_number store_records (VRef 1) (VRef 2) = Some (Inr True)
   \<and> L_eqv (Suc 0) to_number store_records (VRef 3) (VRef 4) = Some (Inr True)"
  using record_sequence_equivalent [of store_records 1 2 "[VNum (Fin 1)]" "Suc 0" to_number]
    record_sequence_equivalent [of store_records 3 4 "[]" 0 to_number]
  by (simp add: store_records_def store0_def empty_object_def own_props_def index_props_def
      dec.simps num_eq_def)

text \<open>
  C5, amended: an arguments object as first operand is not equivalent to any value that
  is not an arguments object, an array with the same elements in the same order
  included: the guard of \<open>objEquiv\<close> returns false before any normalisation.
\<close>

theorem arguments_never_equivalent:
  assumes "L_isArgumentsObject h a" and "\<not> L_isArgumentsObject h b"
  shows "L_eqv (Suc n) tn h a b = Some (Inr False)"
proof -
  from assms(1) obtain p xs where a: "a = VRef p" "kind (h p) = KArguments xs"
    by (cases a) (auto split: kind.splits)
  from a assms(2) have ne: "a \<noteq> b" by auto
  with a have s: "\<not> strict_eq a b" by simp
  have br: "builtin_rule h a b = None"
    using a by (cases b) simp_all
  have ty: "js_typeof h a = ''object''"
    using a by simp
  from assms have "objEquiv (L_eqv n tn h) h a b = Some (Inr False)"
    by (simp add: objEquiv_def)
  with s br ty show ?thesis by simp
qed

theorem arguments_never_equivalent_witness:
  "L_eqv (Suc 0) to_number store_args (VRef 3) (VRef 4) = Some (Inr False)"
  using arguments_never_equivalent [of store_args "VRef 3" "VRef 4" 0 to_number]
  by (simp add: store_args_def store0_def empty_object_def)

text \<open>
  C5 as stated fails at the arguments object of one argument 1 and the array \<open>[1]\<close>.
\<close>

theorem arguments_sequence_counterexample:
  "L_eqv (Suc (Suc 0)) to_number store_args (VRef 1) (VRef 2) = Some (Inr False)"
  by (simp add: store_args_def objEquiv_def)

text \<open>
  C4 fails on the code: \<open>objEquiv\<close> tests only its first operand for being an arguments
  object, so \<open>L.eqv(arguments, [1])\<close> is false and \<open>L.eqv([1], arguments)\<close> is true.
\<close>

theorem eqv_asymmetric:
  "L_eqv (Suc (Suc 0)) to_number store_args (VRef 1) (VRef 2) = Some (Inr False)
   \<and> L_eqv (Suc (Suc 0)) to_number store_args (VRef 2) (VRef 1) = Some (Inr True)"
  by (simp add: store_args_def store0_def empty_object_def objEquiv_def own_props_def
      index_props_def dec.simps num_eq_def)

section \<open>Properties of the ordering predicates\<close>













end
